theory Spec2Isabelle
  imports Complex_Main "HOL-Library.Sublist" "HOL-Library.List_Lexorder"
begin

unbundle bit_operations_syntax

section \<open>Strings\<close>

text \<open>
  A Python \<open>str\<close> is a sequence of code points; it is modelled as a list of
  natural numbers, so that \<open>len\<close> counts code points. \<open>cps\<close> reads an ASCII
  literal as such a sequence.

  \<open>str.lower\<close> is modelled code point by code point on the code points below 256
  (where Python's mapping is the one written here), on the Kelvin sign U+212A (whose
  lowercase is the ASCII letter k) and on the Angstrom sign U+212B; every other code
  point is left as it is, which is what Python does with the dotless i U+0131, the long
  s U+017F and the Greek small mu U+03BC. On strings over these code points the model
  is Python's \<open>str.lower\<close>; strings with other cased code points (among them
  U+0130, whose lowercase has two code points) are outside the model.
\<close>

type_synonym ustr = "nat list"

definition cps :: "string \<Rightarrow> ustr" where
  "cps s = map of_char s"

definition py_isspace :: "nat \<Rightarrow> bool" where
  "py_isspace c =
     ((9 \<le> c \<and> c \<le> 13) \<or> (28 \<le> c \<and> c \<le> 32) \<or> c = 133 \<or> c = 160 \<or> c = 5760
      \<or> (8192 \<le> c \<and> c \<le> 8202) \<or> c = 8232 \<or> c = 8233 \<or> c = 8239 \<or> c = 8287
      \<or> c = 12288)"

definition py_strip :: "ustr \<Rightarrow> ustr" where
  "py_strip s = rev (dropWhile py_isspace (rev (dropWhile py_isspace s)))"

definition py_lower_cp :: "nat \<Rightarrow> nat" where
  "py_lower_cp c =
     (if 65 \<le> c \<and> c \<le> 90 then c + 32
      else if (192 \<le> c \<and> c \<le> 214) \<or> (216 \<le> c \<and> c \<le> 222) then c + 32
      else if c = 8490 then 107
      else if c = 8491 then 229
      else c)"

definition py_lower :: "ustr \<Rightarrow> ustr" where
  "py_lower s = map py_lower_cp s"

text \<open>
  \<open>str.split(sep)\<close> with a one-character separator and \<open>re.split\<close> on a
  one-character class both cut at every separator and keep the empty pieces.
\<close>

fun split_where :: "('a \<Rightarrow> bool) \<Rightarrow> 'a list \<Rightarrow> 'a list list" where
  "split_where P [] = [[]]"
| "split_where P (c # cs) =
     (if P c then [] # split_where P cs
      else (case split_where P cs of
              [] \<Rightarrow> [[c]]
            | p # ps \<Rightarrow> (c # p) # ps))"

definition py_split :: "nat \<Rightarrow> ustr \<Rightarrow> ustr list" where
  "py_split sep s = split_where (\<lambda>c. c = sep) s"

section \<open>constants.py\<close>

text \<open>\<open>INITIALS = string.ascii_uppercase + string.digits\<close>; \<open>c in INITIALS\<close> for one character.\<close>

definition INITIALS :: "nat \<Rightarrow> bool" where
  "INITIALS c = ((65 \<le> c \<and> c \<le> 90) \<or> (48 \<le> c \<and> c \<le> 57))"

definition is_alnum :: "nat \<Rightarrow> bool" where
  "is_alnum c = ((97 \<le> c \<and> c \<le> 122) \<or> (65 \<le> c \<and> c \<le> 90) \<or> (48 \<le> c \<and> c \<le> 57))"

text \<open>\<open>split_on_delimiters = re.compile('[^a-zA-Z0-9]').split\<close>\<close>

definition split_on_delimiters :: "ustr \<Rightarrow> ustr list" where
  "split_on_delimiters s = split_where (\<lambda>c. \<not> is_alnum c) s"

definition MATCH_STARTSWITH :: int where "MATCH_STARTSWITH = 1"
definition MATCH_CAPITALS :: int where "MATCH_CAPITALS = 2"
definition MATCH_ATOM :: int where "MATCH_ATOM = 4"
definition MATCH_INITIALS_STARTSWITH :: int where "MATCH_INITIALS_STARTSWITH = 8"
definition MATCH_INITIALS_CONTAIN :: int where "MATCH_INITIALS_CONTAIN = 16"
definition MATCH_INITIALS :: int where "MATCH_INITIALS = 24"
definition MATCH_SUBSTRING :: int where "MATCH_SUBSTRING = 32"
definition MATCH_ALLCHARS :: int where "MATCH_ALLCHARS = 64"
definition MATCH_ALL :: int where "MATCH_ALL = 127"

section \<open>Errors and the workflow object\<close>

text \<open>
  What \<open>filter\<close> and \<open>_filter_item\<close> can raise: whatever the caller's key function
  raises (an exception is named by a string, and a key function returns \<open>Inl\<close> of
  it where it raises), the \<open>TypeError\<close> of an unsupported \<open><\<close>, and the
  \<open>ZeroDivisionError\<close> of a division by \<open>len(query)\<close>.
\<close>

datatype exn = KeyRaised string | TypeError | ZeroDivisionError

text \<open>
  The two parts of \<open>self\<close> that \<open>filter\<close> reads. \<open>fold_to_ascii\<close> is the
  method that transliterates a search key; it is called in \<open>_filter_item\<close> and its
  body and replacement table are not in the source files, so it is a field here.
  \<open>diacritic_folding\<close> is \<open>self.settings.get('__workflow_diacritic_folding')\<close>,
  \<open>None\<close> when the setting is absent.
\<close>

record workflow =
  fold_to_ascii :: "ustr \<Rightarrow> ustr"
  diacritic_folding :: "bool option"

text \<open>
  Modelled from the spec: \<open>isascii\<close> is called by \<open>_filter_item\<close> and is not in the
  source files. The spec speaks of a query that "contains non-ASCII characters": a
  string is ASCII when each code point is below 128.
\<close>

definition isascii :: "ustr \<Rightarrow> bool" where
  "isascii s = list_all (\<lambda>c. c < 128) s"

section \<open>The ALLCHARS pattern\<close>

text \<open>
  \<open>_search_for_query\<close> compiles \<open>.*?c1.*?c2...\<close> (each \<open>c\<close> escaped, so literal)
  with \<open>re.IGNORECASE\<close> and returns its \<open>search\<close>. \<open>match_here\<close> is the
  backtracking match of that pattern anchored at the head of the text: a lazy \<open>.*?\<close>
  first tries the next literal where it stands and only then lets \<open>.\<close> take one more
  character, which may be anything but a newline. Its result is the length matched.
  \<open>search\<close> tries the start positions from the left, as \<open>re.search\<close> does, and
  returns \<open>(match.start(), match.end())\<close>. The dictionary that caches the compiled
  pattern per query does not change what \<open>search\<close> returns and is left out.

  Under \<open>re.IGNORECASE\<close> the compiled literal \<open>c\<close> matches a character \<open>x\<close>
  when the lowercase of \<open>x\<close> is the lowercase of \<open>c\<close> or one of the extra cases
  that \<open>re\<close> lists for it: i and the dotless i U+0131 match each other, as do s
  and the long s U+017F, and the micro sign U+00B5 and the Greek small mu U+03BC. These
  are the entries of that list on the code points of the model; its other entries are
  Greek, Cyrillic and ligature letters. So the pattern can match a value that does not
  contain the characters of the query, and the pre-filter of \<open>_filter_item\<close> is
  then what decides.
\<close>

definition extra_cases :: "nat \<Rightarrow> nat list" where
  "extra_cases lo =
     (if lo = 105 then [305] else if lo = 305 then [105]
      else if lo = 115 then [383] else if lo = 383 then [115]
      else if lo = 181 then [956] else if lo = 956 then [181]
      else [])"

definition ci_eq :: "nat \<Rightarrow> nat \<Rightarrow> bool" where
  "ci_eq c x =
     (py_lower_cp x = py_lower_cp c \<or> py_lower_cp x \<in> set (extra_cases (py_lower_cp c)))"

fun match_here :: "ustr \<Rightarrow> ustr \<Rightarrow> nat option" where
  "match_here [] v = Some 0"
| "match_here (c # cs) [] = None"
| "match_here (c # cs) (x # xs) =
     (case (if ci_eq c x then match_here cs xs else None) of
        Some n \<Rightarrow> Some (Suc n)
      | None \<Rightarrow> (if x = 10 then None else map_option Suc (match_here (c # cs) xs)))"

fun search_for_query :: "ustr \<Rightarrow> ustr \<Rightarrow> (nat \<times> nat) option" where
  "search_for_query q [] = (case match_here q [] of Some n \<Rightarrow> Some (0, n) | None \<Rightarrow> None)"
| "search_for_query q (x # xs) =
     (case match_here q (x # xs) of
        Some n \<Rightarrow> Some (0, n)
      | None \<Rightarrow> map_option (\<lambda>(s, e). (Suc s, Suc e)) (search_for_query q xs))"

section \<open>\<open>Workflow._filter_item\<close>\<close>

text \<open>
  Scores are Python floats; they are modelled as exact rationals, so rounding is not
  part of the model. \<open>len(a) / len(query)\<close> raises when the query is empty.
\<close>

definition length_score :: "rat \<Rightarrow> nat \<Rightarrow> nat \<Rightarrow> int \<Rightarrow> exn + (rat \<times> int option)" where
  "length_score base n m rule =
     (if m = 0 then Inl ZeroDivisionError
      else Inr (base - of_nat n / of_nat m, Some rule))"

text \<open>The first lines of \<open>_filter_item\<close>: the query and the value that are compared.\<close>

definition folding :: "ustr \<Rightarrow> bool \<Rightarrow> bool" where
  "folding query0 fold_diacritics = (if \<not> isascii (py_lower query0) then False else fold_diacritics)"

definition compared_value :: "workflow \<Rightarrow> ustr \<Rightarrow> ustr \<Rightarrow> bool \<Rightarrow> ustr" where
  "compared_value self value0 query0 fold_diacritics =
     (if folding query0 fold_diacritics then fold_to_ascii self value0 else value0)"

definition capitals :: "ustr \<Rightarrow> ustr" where
  "capitals v = filter INITIALS v"

definition atoms_of :: "ustr \<Rightarrow> ustr list" where
  "atoms_of v = map py_lower (split_on_delimiters v)"

definition initials_of :: "ustr list \<Rightarrow> ustr" where
  "initials_of atoms = concat (map (\<lambda>s. [hd s]) (filter (\<lambda>s. s \<noteq> []) atoms))"

definition filter_item ::
  "workflow \<Rightarrow> ustr \<Rightarrow> ustr \<Rightarrow> int \<Rightarrow> bool \<Rightarrow> exn + (rat \<times> int option)" where
  "filter_item self value0 query0 match_on fold_diacritics =
     (let query = py_lower query0;
          v = compared_value self value0 query0 fold_diacritics;
          atoms = atoms_of v;
          initials = initials_of atoms
      in
      if \<not> (set query \<subseteq> set (py_lower v)) then Inr (0, None)
      else if match_on AND MATCH_STARTSWITH \<noteq> 0 \<and> prefix query (py_lower v)
        then length_score 100 (length v) (length query) MATCH_STARTSWITH
      else if match_on AND MATCH_CAPITALS \<noteq> 0 \<and> prefix query (py_lower (capitals v))
        then length_score 100 (length (capitals v)) (length query) MATCH_CAPITALS
      else if match_on AND MATCH_ATOM \<noteq> 0 \<and> query \<in> set atoms
        then length_score 100 (length v) (length query) MATCH_ATOM
      else if match_on AND MATCH_INITIALS_STARTSWITH \<noteq> 0 \<and> prefix query initials
        then length_score 100 (length initials) (length query) MATCH_INITIALS_STARTSWITH
      else if match_on AND MATCH_INITIALS_CONTAIN \<noteq> 0 \<and> sublist query initials
        then length_score 95 (length initials) (length query) MATCH_INITIALS_CONTAIN
      else if match_on AND MATCH_SUBSTRING \<noteq> 0 \<and> sublist query (py_lower v)
        then length_score 90 (length v) (length query) MATCH_SUBSTRING
      else if match_on AND MATCH_ALLCHARS \<noteq> 0
        then (case search_for_query query v of
                Some (s, e) \<Rightarrow> Inr (100 / (of_nat (1 + s) * (of_nat e - of_nat s + 1)), Some MATCH_ALLCHARS)
              | None \<Rightarrow> Inr (0, None))
      else Inr (0, None))"

text \<open>
  The seven rules in the order in which \<open>_filter_item\<close> tests them, the condition
  under which each one returns, and the score it returns then; \<open>v\<close> is the value
  compared and \<open>q\<close> the lowercased query.
\<close>

definition rule_order :: "int list" where
  "rule_order = [MATCH_STARTSWITH, MATCH_CAPITALS, MATCH_ATOM, MATCH_INITIALS_STARTSWITH,
                 MATCH_INITIALS_CONTAIN, MATCH_SUBSTRING, MATCH_ALLCHARS]"

definition rule_holds :: "int \<Rightarrow> ustr \<Rightarrow> ustr \<Rightarrow> bool" where
  "rule_holds r v q =
     (if r = MATCH_STARTSWITH then prefix q (py_lower v)
      else if r = MATCH_CAPITALS then prefix q (py_lower (capitals v))
      else if r = MATCH_ATOM then q \<in> set (atoms_of v)
      else if r = MATCH_INITIALS_STARTSWITH then prefix q (initials_of (atoms_of v))
      else if r = MATCH_INITIALS_CONTAIN then sublist q (initials_of (atoms_of v))
      else if r = MATCH_SUBSTRING then sublist q (py_lower v)
      else if r = MATCH_ALLCHARS then search_for_query q v \<noteq> None
      else False)"

definition rule_score :: "int \<Rightarrow> ustr \<Rightarrow> ustr \<Rightarrow> rat" where
  "rule_score r v q =
     (if r = MATCH_STARTSWITH then 100 - of_nat (length v) / of_nat (length q)
      else if r = MATCH_CAPITALS then 100 - of_nat (length (capitals v)) / of_nat (length q)
      else if r = MATCH_ATOM then 100 - of_nat (length v) / of_nat (length q)
      else if r = MATCH_INITIALS_STARTSWITH
        then 100 - of_nat (length (initials_of (atoms_of v))) / of_nat (length q)
      else if r = MATCH_INITIALS_CONTAIN
        then 95 - of_nat (length (initials_of (atoms_of v))) / of_nat (length q)
      else if r = MATCH_SUBSTRING then 90 - of_nat (length v) / of_nat (length q)
      else if r = MATCH_ALLCHARS
        then (case search_for_query q v of
                Some (s, e) \<Rightarrow> 100 / (of_nat (1 + s) * (of_nat e - of_nat s + 1))
              | None \<Rightarrow> 0)
      else 0)"

text \<open>The first active rule whose condition holds, with the score of that rule.\<close>

definition first_match :: "int \<Rightarrow> ustr \<Rightarrow> ustr \<Rightarrow> rat \<times> int option" where
  "first_match match_on v q =
     (case find (\<lambda>r. match_on AND r \<noteq> 0 \<and> rule_holds r v q) rule_order of
        None \<Rightarrow> (0, None)
      | Some r \<Rightarrow> (rule_score r v q, Some r))"


text \<open>
  The spec's atoms: the maximal runs of alphanumeric characters of a search key.
\<close>

function alnum_runs :: "ustr \<Rightarrow> ustr list" where
  "alnum_runs [] = []"
| "alnum_runs (c # cs) =
     (if is_alnum c then (c # takeWhile is_alnum cs) # alnum_runs (dropWhile is_alnum cs)
      else alnum_runs cs)"
  by pat_completeness auto
termination
  by (relation "measure length") (auto simp: less_Suc_eq_le length_dropWhile_le)

section \<open>\<open>Workflow.filter\<close>\<close>

text \<open>
  The inner loop over the words of the query. Its state is the three local variables
  \<open>skip\<close>, \<open>score\<close> and \<open>rule\<close>; an empty word is passed over, and a word
  that scores zero sets \<open>skip\<close> without leaving the loop.
\<close>

fun score_words ::
  "workflow \<Rightarrow> ustr \<Rightarrow> int \<Rightarrow> bool \<Rightarrow> ustr list \<Rightarrow> bool \<times> rat \<times> int option
     \<Rightarrow> exn + (bool \<times> rat \<times> int option)" where
  "score_words self v match_on fd [] st = Inr st"
| "score_words self v match_on fd (word # words) (skip, score, rule) =
     (if word = [] then score_words self v match_on fd words (skip, score, rule)
      else (case filter_item self v word match_on fd of
              Inl e \<Rightarrow> Inl e
            | Inr (s, r) \<Rightarrow>
                score_words self v match_on fd words (skip \<or> s = 0, score + s, r)))"

text \<open>
  One element of \<open>results\<close>: the sort key \<open>(100.0 / score, value.lower(), score)\<close>
  paired with \<open>(item, score, rule)\<close>.
\<close>

type_synonym 'a scored = "'a \<times> rat \<times> int option"
type_synonym 'a entry = "(rat \<times> ustr \<times> rat) \<times> 'a scored"

definition query_words :: "ustr \<Rightarrow> ustr list" where
  "query_words query = map py_strip (py_split 32 query)"

text \<open>
  The loop \<open>for item in items\<close>; \<open>query\<close> is the stripped query. The inner
  loop starts with \<open>rule\<close> at \<open>None\<close>: Python's variable is not yet bound
  there (or holds the rule of the item before), and it is only read after a word has
  assigned it, since an entry is appended only when the score is not zero.
\<close>

fun collect ::
  "workflow \<Rightarrow> ('a \<Rightarrow> string + ustr) \<Rightarrow> ustr \<Rightarrow> int \<Rightarrow> bool \<Rightarrow> 'a list
     \<Rightarrow> exn + 'a entry list" where
  "collect self key query match_on fd [] = Inr []"
| "collect self key query match_on fd (item # items) =
     (case key item of
        Inl e \<Rightarrow> Inl (KeyRaised e)
      | Inr k \<Rightarrow>
          (let v = py_strip k in
           if v = [] then collect self key query match_on fd items
           else (case score_words self v match_on fd (query_words query) (False, 0, None) of
                   Inl e \<Rightarrow> Inl e
                 | Inr (skip, score, rule) \<Rightarrow>
                     (if skip \<or> score = 0 then collect self key query match_on fd items
                      else (case collect self key query match_on fd items of
                              Inl e \<Rightarrow> Inl e
                            | Inr rest \<Rightarrow>
                                Inr (((100 / score, py_lower v, score), (item, score, rule)) # rest))))))"

text \<open>
  \<open>results.sort(reverse=ascending)\<close> sorts the pairs themselves, so Python compares
  two tuples at their first unequal component: the sort keys, and where the sort keys
  are equal the items, with the items' own \<open><\<close>. \<open>lt\<close> is that \<open><\<close>, \<open>None\<close>
  where it raises \<open>TypeError\<close> (two dictionaries, two objects without an ordering);
  equality of items is HOL's.
\<close>

definition sortkey_lt :: "rat \<times> ustr \<times> rat \<Rightarrow> rat \<times> ustr \<times> rat \<Rightarrow> bool" where
  "sortkey_lt k1 k2 =
     (case (k1, k2) of ((a1, b1, c1), (a2, b2, c2)) \<Rightarrow>
        if a1 \<noteq> a2 then a1 < a2 else if b1 \<noteq> b2 then b1 < b2 else c1 < c2)"

definition scored_lt :: "('a \<Rightarrow> 'a \<Rightarrow> bool option) \<Rightarrow> 'a scored \<Rightarrow> 'a scored \<Rightarrow> exn + bool" where
  "scored_lt lt p1 p2 =
     (case (p1, p2) of ((i1, s1, r1), (i2, s2, r2)) \<Rightarrow>
        if i1 \<noteq> i2 then (case lt i1 i2 of None \<Rightarrow> Inl TypeError | Some b \<Rightarrow> Inr b)
        else if s1 \<noteq> s2 then Inr (s1 < s2)
        else if r1 \<noteq> r2 then
          (case (r1, r2) of (Some x, Some y) \<Rightarrow> Inr (x < y) | _ \<Rightarrow> Inl TypeError)
        else Inr False)"

definition entry_lt :: "('a \<Rightarrow> 'a \<Rightarrow> bool option) \<Rightarrow> 'a entry \<Rightarrow> 'a entry \<Rightarrow> exn + bool" where
  "entry_lt lt e1 e2 =
     (if fst e1 \<noteq> fst e2 then Inr (sortkey_lt (fst e1) (fst e2))
      else scored_lt lt (snd e1) (snd e2))"

text \<open>
  \<open>list.sort\<close> is a stable sort that only asks \<open><\<close>; with \<open>reverse=True\<close> it
  reverses the list, sorts it, and reverses it again. It is modelled by a stable
  insertion sort that stops at the first comparison that raises. On a list of two
  elements, and on any list where no comparison raises and \<open><\<close> is a strict linear
  order, this is what \<open>list.sort\<close> returns.
\<close>

fun sort_insert ::
  "('a \<Rightarrow> 'a \<Rightarrow> bool option) \<Rightarrow> 'a entry \<Rightarrow> 'a entry list \<Rightarrow> exn + 'a entry list" where
  "sort_insert lt x [] = Inr [x]"
| "sort_insert lt x (y # ys) =
     (case entry_lt lt y x of
        Inl e \<Rightarrow> Inl e
      | Inr True \<Rightarrow> (case sort_insert lt x ys of Inl e \<Rightarrow> Inl e | Inr zs \<Rightarrow> Inr (y # zs))
      | Inr False \<Rightarrow> Inr (x # y # ys))"

fun sort_entries ::
  "('a \<Rightarrow> 'a \<Rightarrow> bool option) \<Rightarrow> 'a entry list \<Rightarrow> exn + 'a entry list" where
  "sort_entries lt [] = Inr []"
| "sort_entries lt (x # xs) =
     (case sort_entries lt xs of Inl e \<Rightarrow> Inl e | Inr ys \<Rightarrow> sort_insert lt x ys)"

definition py_sort ::
  "('a \<Rightarrow> 'a \<Rightarrow> bool option) \<Rightarrow> bool \<Rightarrow> 'a entry list \<Rightarrow> exn + 'a entry list" where
  "py_sort lt reverse xs =
     (if reverse then (case sort_entries lt (rev xs) of Inl e \<Rightarrow> Inl e | Inr ys \<Rightarrow> Inr (rev ys))
      else sort_entries lt xs)"

text \<open>\<open>results[:n]\<close>, for an \<open>n\<close> of either sign.\<close>

definition py_take :: "int \<Rightarrow> 'b list \<Rightarrow> 'b list" where
  "py_take n xs = (if 0 \<le> n then take (nat n) xs else take (nat (int (length xs) + n)) xs)"

text \<open>
  What \<open>filter\<close> returns: the caller's \<open>items\<close>, a list of items, or with
  \<open>include_score\<close> the list of \<open>(item, score, rule)\<close>.
\<close>

datatype 'a returned = Items "'a list" | Scored "'a scored list"

fun output_items :: "'a returned \<Rightarrow> 'a list" where
  "output_items (Items xs) = xs"
| "output_items (Scored rs) = map fst rs"

text \<open>\<open>self.settings.get('__workflow_diacritic_folding', fold_diacritics)\<close>\<close>

definition settings_get :: "workflow \<Rightarrow> bool \<Rightarrow> bool" where
  "settings_get self fold_diacritics =
     (case diacritic_folding self of None \<Rightarrow> fold_diacritics | Some b \<Rightarrow> b)"

definition filter_items ::
  "workflow \<Rightarrow> ('a \<Rightarrow> 'a \<Rightarrow> bool option) \<Rightarrow> ustr \<Rightarrow> 'a list \<Rightarrow> ('a \<Rightarrow> string + ustr) \<Rightarrow> bool \<Rightarrow> bool
     \<Rightarrow> rat \<Rightarrow> int \<Rightarrow> int \<Rightarrow> bool \<Rightarrow> exn + 'a returned" where
  "filter_items self lt query0 items key ascending include_score min_score max_results
       match_on fold_diacritics0 =
     (if query0 = [] then Inr (Items items)
      else
        let query = py_strip query0 in
        if query = [] then Inr (Items items)
        else
          let fold_diacritics = settings_get self fold_diacritics0 in
          (case collect self key query match_on fold_diacritics items of
             Inl e \<Rightarrow> Inl e
           | Inr results0 \<Rightarrow>
               (case py_sort lt ascending results0 of
                  Inl e \<Rightarrow> Inl e
                | Inr sorted_results \<Rightarrow>
                    (let results1 = map snd sorted_results;
                         results2 = (if min_score \<noteq> 0
                                     then filter (\<lambda>r. fst (snd r) > min_score) results1
                                     else results1);
                         results3 = (if max_results \<noteq> 0 \<and> int (length results2) > max_results
                                     then py_take max_results results2
                                     else results2)
                     in if include_score then Inr (Scored results3)
                        else Inr (Items (map fst results3))))))"

section \<open>Callers\<close>

text \<open>
  A workflow whose \<open>fold_to_ascii\<close> changes nothing and whose settings do not
  override the folding flag.
\<close>

definition plain_workflow :: workflow where
  "plain_workflow = \<lparr>fold_to_ascii = (\<lambda>s. s), diacritic_folding = None\<rparr>"

text \<open>
  Modelled from the spec: the replacement table of \<open>fold_to_ascii\<close> is not in the
  source files. The spec (and the docstring of \<open>filter\<close>) names three of its
  replacements, "\<open>u\<close> with diaeresis" to \<open>u\<close>, "sharp s" to \<open>ss\<close> and
  "\<open>e\<close> with acute" to \<open>e\<close>; this instance makes those three and no other.
\<close>

definition fold_example :: "ustr \<Rightarrow> ustr" where
  "fold_example s =
     concat (map (\<lambda>c. if c = 223 then [115, 115] else if c = 233 then [101]
                       else if c = 252 then [117] else [c]) s)"

definition example_workflow :: workflow where
  "example_workflow = \<lparr>fold_to_ascii = fold_example, diacritic_folding = None\<rparr>"

text \<open>
  Items that are strings, with the default \<open>key=lambda x: x\<close> and the order of
  \<open>str\<close>; and items that are dictionaries with a \<open>title\<close> and an \<open>id\<close>,
  written as pairs, with \<open>key=lambda d: d['title']\<close>. Python has no \<open><\<close>
  between two dictionaries.
\<close>

definition str_key :: "ustr \<Rightarrow> string + ustr" where
  "str_key x = Inr x"

definition str_lt :: "ustr \<Rightarrow> ustr \<Rightarrow> bool option" where
  "str_lt a b = Some (a < b)"

definition title_key :: "ustr \<times> nat \<Rightarrow> string + ustr" where
  "title_key d = Inr (fst d)"

definition dict_lt :: "ustr \<times> nat \<Rightarrow> ustr \<times> nat \<Rightarrow> bool option" where
  "dict_lt a b = None"

section \<open>Facts about the string operations\<close>

lemma py_lower_cp_idem: "py_lower_cp (py_lower_cp c) = py_lower_cp c"
  by (simp add: py_lower_cp_def)

lemma py_lower_idem: "py_lower (py_lower s) = py_lower s"
  by (simp add: py_lower_def py_lower_cp_idem)

lemma length_py_lower: "length (py_lower s) = length s"
  by (simp add: py_lower_def)

lemma py_lower_Nil_iff: "py_lower s = [] \<longleftrightarrow> s = []"
  by (simp add: py_lower_def)

lemma split_where_not_Nil: "split_where P v \<noteq> []"
  by (induction v) (simp_all split: list.split)

lemma set_split_where: "p \<in> set (split_where P v) \<Longrightarrow> set p \<subseteq> set v"
proof (induction v arbitrary: p)
  case Nil
  then show ?case by simp
next
  case (Cons c cs)
  obtain a as where sp: "split_where P cs = a # as"
    using split_where_not_Nil[of P cs] by (cases "split_where P cs") simp_all
  have a: "set a \<subseteq> set cs"
    using Cons.IH[of a] sp by simp
  have as: "set p \<subseteq> set cs" if "p \<in> set as"
    using Cons.IH[of p] sp that by simp
  show ?case
  proof (cases "P c")
    case True
    with Cons.prems sp have "p = [] \<or> p = a \<or> p \<in> set as" by simp
    with a as show ?thesis by (elim disjE) (simp, fastforce, fastforce)
  next
    case False
    with Cons.prems sp have "p = c # a \<or> p \<in> set as" by simp
    with a as show ?thesis by (elim disjE) (fastforce, fastforce)
  qed
qed

section \<open>Facts about \<open>_filter_item\<close>\<close>

lemmas match_defs = MATCH_STARTSWITH_def MATCH_CAPITALS_def MATCH_ATOM_def
  MATCH_INITIALS_STARTSWITH_def MATCH_INITIALS_CONTAIN_def MATCH_SUBSTRING_def MATCH_ALLCHARS_def

lemma match_here_set:
  "match_here q v = Some n \<Longrightarrow> c \<in> set q \<Longrightarrow> \<exists>x\<in>set v. ci_eq c x"
proof (induction q v arbitrary: n rule: match_here.induct)
  case (1 v)
  then show ?case by simp
next
  case (2 c' cs)
  then show ?case by simp
next
  case (3 c' cs x xs)
  show ?case
  proof (cases "ci_eq c' x \<and> match_here cs xs \<noteq> None")
    case True
    then obtain k where k: "match_here cs xs = Some k" by auto
    from "3.prems"(2) have "c = c' \<or> c \<in> set cs" by auto
    then show ?thesis
    proof
      assume "c = c'" with True show ?thesis by auto
    next
      assume "c \<in> set cs"
      with "3.IH"(1)[OF _ k] True show ?thesis by auto
    qed
  next
    case False
    with "3.prems"(1) obtain k where nl: "x \<noteq> 10" and k: "match_here (c' # cs) xs = Some k"
      by (auto split: if_splits option.splits)
    from False have "(if ci_eq c' x then match_here cs xs else None) = None" by auto
    from "3.IH"(2)[OF this nl k "3.prems"(2)] show ?thesis by auto
  qed
qed

lemma search_for_query_set:
  "search_for_query q v = Some se \<Longrightarrow> c \<in> set q \<Longrightarrow> \<exists>x\<in>set v. ci_eq c x"
proof (induction v arbitrary: se)
  case Nil
  then show ?case by (auto split: option.splits dest: match_here_set)
next
  case (Cons x xs)
  show ?case
  proof (cases "match_here q (x # xs)")
    case None
    with Cons.prems(1) obtain se' where "search_for_query q xs = Some se'" by auto
    from Cons.IH[OF this Cons.prems(2)] show ?thesis by auto
  next
    case (Some n)
    from match_here_set[OF Some Cons.prems(2)] show ?thesis .
  qed
qed

lemma search_for_query_le: "search_for_query q v = Some (s, e) \<Longrightarrow> s \<le> e"
proof (induction v arbitrary: s e)
  case Nil
  then show ?case by (auto split: option.splits)
next
  case (Cons x xs)
  then show ?case by (cases "match_here q (x # xs)") auto
qed

lemma set_capitals: "set (py_lower (capitals v)) \<subseteq> set (py_lower v)"
  by (auto simp: py_lower_def capitals_def)

lemma set_atoms_of: "a \<in> set (atoms_of v) \<Longrightarrow> set a \<subseteq> set (py_lower v)"
  using set_split_where[of _ "\<lambda>c. \<not> is_alnum c" v]
  by (fastforce simp: atoms_of_def split_on_delimiters_def py_lower_def)

lemma set_initials_of: "set (initials_of (atoms_of v)) \<subseteq> set (py_lower v)"
proof
  fix c assume "c \<in> set (initials_of (atoms_of v))"
  then obtain a where a: "a \<in> set (atoms_of v)" "a \<noteq> []" "c = hd a"
    by (auto simp: initials_of_def)
  then have "c \<in> set a" by simp
  with set_atoms_of[OF a(1)] show "c \<in> set (py_lower v)" by auto
qed

text \<open>
  Each rule but ALLCHARS can only hold when every character of the query is in the
  lowercased value, that is, when the pre-filter lets the value through.
\<close>

lemma rule_holds_prefilter:
  assumes "rule_holds r v q" and "r \<noteq> MATCH_ALLCHARS"
  shows "set q \<subseteq> set (py_lower v)"
proof -
  have pre: "\<And>xs ys::ustr. prefix xs ys \<Longrightarrow> set xs \<subseteq> set ys" by (rule set_mono_prefix)
  have sub: "\<And>xs ys::ustr. sublist xs ys \<Longrightarrow> set xs \<subseteq> set ys" by (rule set_mono_sublist)
  from assms consider
      "prefix q (py_lower v)" | "prefix q (py_lower (capitals v))" | "q \<in> set (atoms_of v)"
    | "prefix q (initials_of (atoms_of v))" | "sublist q (initials_of (atoms_of v))"
    | "sublist q (py_lower v)"
    unfolding rule_holds_def by (auto split: if_splits)
  then show ?thesis
  proof cases
    case 1 then show ?thesis by (rule pre)
  next
    case 2 with pre[OF 2] set_capitals[of v] show ?thesis by blast
  next
    case 3 then show ?thesis by (rule set_atoms_of)
  next
    case 4 with pre[OF 4] set_initials_of[of v] show ?thesis by blast
  next
    case 5 with sub[OF 5] set_initials_of[of v] show ?thesis by blast
  next
    case 6 then show ?thesis by (rule sub)
  qed
qed

lemma rule_holds_simps:
  "rule_holds MATCH_STARTSWITH v q = prefix q (py_lower v)"
  "rule_holds MATCH_CAPITALS v q = prefix q (py_lower (capitals v))"
  "rule_holds MATCH_ATOM v q = (q \<in> set (atoms_of v))"
  "rule_holds MATCH_INITIALS_STARTSWITH v q = prefix q (initials_of (atoms_of v))"
  "rule_holds MATCH_INITIALS_CONTAIN v q = sublist q (initials_of (atoms_of v))"
  "rule_holds MATCH_SUBSTRING v q = sublist q (py_lower v)"
  "rule_holds MATCH_ALLCHARS v q = (search_for_query q v \<noteq> None)"
  by (simp_all add: rule_holds_def match_defs)

lemma rule_score_simps:
  "rule_score MATCH_STARTSWITH v q = 100 - of_nat (length v) / of_nat (length q)"
  "rule_score MATCH_CAPITALS v q = 100 - of_nat (length (capitals v)) / of_nat (length q)"
  "rule_score MATCH_ATOM v q = 100 - of_nat (length v) / of_nat (length q)"
  "rule_score MATCH_INITIALS_STARTSWITH v q =
     100 - of_nat (length (initials_of (atoms_of v))) / of_nat (length q)"
  "rule_score MATCH_INITIALS_CONTAIN v q =
     95 - of_nat (length (initials_of (atoms_of v))) / of_nat (length q)"
  "rule_score MATCH_SUBSTRING v q = 90 - of_nat (length v) / of_nat (length q)"
  "rule_score MATCH_ALLCHARS v q =
     (case search_for_query q v of
        Some (s, e) \<Rightarrow> 100 / (of_nat (1 + s) * (of_nat e - of_nat s + 1))
      | None \<Rightarrow> 0)"
  by (simp_all add: rule_score_def match_defs)

text \<open>
  \<open>_filter_item\<close> on a non-empty word: the pre-filter, then the first active rule
  whose condition holds.
\<close>

lemma filter_item_first_match:
  assumes "w \<noteq> []"
  shows "filter_item self v0 w m fd =
         Inr (if set (py_lower w) \<subseteq> set (py_lower (compared_value self v0 w fd))
              then first_match m (compared_value self v0 w fd) (py_lower w)
              else (0, None))"
proof -
  define q where "q = py_lower w"
  define v where "v = compared_value self v0 w fd"
  have q: "length q \<noteq> 0"
    using assms by (simp add: q_def py_lower_Nil_iff)
  show ?thesis
  proof (cases "set q \<subseteq> set (py_lower v)")
    case False
    then show ?thesis
      by (simp add: filter_item_def Let_def q_def[symmetric] v_def[symmetric])
  next
    case True
    then show ?thesis
      unfolding filter_item_def Let_def q_def[symmetric] v_def[symmetric]
        first_match_def rule_order_def
      using q
      by (simp add: rule_holds_simps rule_score_simps length_score_def split: option.split)
  qed
qed

lemma and_rule_bits:
  assumes "(m::int) AND MATCH_ALL = 0" and "r \<in> set rule_order"
  shows "m AND r = 0"
proof -
  have "m AND r = (m AND MATCH_ALL) AND r"
    using assms(2) by (auto simp: rule_order_def match_defs MATCH_ALL_def and.assoc)
  with assms(1) show ?thesis by simp
qed

lemma first_match_cases:
  "first_match m v q = (0, None) \<or>
   (\<exists>r. r \<in> set rule_order \<and> m AND r \<noteq> 0 \<and> rule_holds r v q \<and>
        first_match m v q = (rule_score r v q, Some r))"
proof (cases "find (\<lambda>r. m AND r \<noteq> 0 \<and> rule_holds r v q) rule_order")
  case None
  then show ?thesis by (simp add: first_match_def)
next
  case (Some r)
  then have "r \<in> set rule_order \<and> m AND r \<noteq> 0 \<and> rule_holds r v q"
    by (auto simp: find_Some_iff)
  with Some show ?thesis by (auto simp: first_match_def)
qed

lemma length_single_concat: "length (concat (map (\<lambda>s. [f s]) xs)) = length xs"
  by (induction xs) simp_all

lemma length_nonempty_split: "length (filter (\<lambda>s. s \<noteq> []) (split_where P v)) \<le> length v"
proof (induction v)
  case Nil
  then show ?case by simp
next
  case (Cons c cs)
  obtain a as where sp: "split_where P cs = a # as"
    using split_where_not_Nil[of P cs] by (cases "split_where P cs") simp_all
  with Cons have "length (filter (\<lambda>s. s \<noteq> []) as) \<le> length cs"
    by (simp split: if_splits)
  with sp Cons show ?case by (simp split: if_splits)
qed

lemma length_initials_of: "length (initials_of (atoms_of v)) \<le> length v"
proof -
  have "length (initials_of atoms) = length (filter (\<lambda>s. s \<noteq> []) atoms)" for atoms
    by (simp add: initials_of_def length_single_concat)
  moreover have "length (filter (\<lambda>s. s \<noteq> []) (map py_lower xs)) =
      length (filter (\<lambda>s. s \<noteq> []) xs)" for xs
    by (induction xs) (simp_all add: py_lower_Nil_iff)
  ultimately show ?thesis
    using length_nonempty_split[of "\<lambda>c. \<not> is_alnum c" v]
    by (simp add: atoms_of_def split_on_delimiters_def)
qed

lemma length_capitals: "length (capitals v) \<le> length v"
  by (simp add: capitals_def)

lemma ratio_less:
  fixes n m :: nat
  assumes "n < 90 * m"
  shows "(of_nat n :: rat) / of_nat m < 90"
proof -
  from assms have m: "0 < m" by (cases m) simp_all
  have "(of_nat n :: rat) < of_nat (90 * m)" using assms by (simp only: of_nat_less_iff)
  then have "(of_nat n :: rat) < 90 * of_nat m" by simp
  with m show ?thesis by (simp add: pos_divide_less_eq)
qed

lemma rule_score_pos:
  assumes "r \<in> set rule_order" and "rule_holds r v q" and "length v < 90 * length q"
  shows "0 < rule_score r v q"
proof -
  have v: "(of_nat (length v) :: rat) / of_nat (length q) < 90"
    using assms(3) by (rule ratio_less)
  have c: "(of_nat (length (capitals v)) :: rat) / of_nat (length q) < 90"
    using assms(3) length_capitals[of v] by (intro ratio_less) simp
  have i: "(of_nat (length (initials_of (atoms_of v))) :: rat) / of_nat (length q) < 90"
    using assms(3) length_initials_of[of v] by (intro ratio_less) simp
  from assms(1) consider "r = MATCH_STARTSWITH" | "r = MATCH_CAPITALS" | "r = MATCH_ATOM"
    | "r = MATCH_INITIALS_STARTSWITH" | "r = MATCH_INITIALS_CONTAIN" | "r = MATCH_SUBSTRING"
    | "r = MATCH_ALLCHARS"
    by (auto simp: rule_order_def)
  then show ?thesis
  proof cases
    case 7
    with assms(2) obtain s e where se: "search_for_query q v = Some (s, e)"
      by (auto simp: rule_holds_simps)
    then have "s \<le> e" by (rule search_for_query_le)
    then have "(0::rat) < of_nat (1 + s) * (of_nat e - of_nat s + 1)"
      by (intro mult_pos_pos) (simp_all add: add_pos_nonneg)
    with 7 se show ?thesis by (simp add: rule_score_simps)
  qed (use v c i in \<open>simp_all add: rule_score_simps\<close>)
qed

lemma filter_item_fold_off:
  assumes "\<not> isascii (py_lower w)"
  shows "filter_item self v w m True = filter_item self v w m False"
  using assms by (simp add: filter_item_def compared_value_def folding_def)

lemma long_value_facts:
  "py_lower (65 # replicate 99 98) = 97 # replicate 99 98"
  "capitals (65 # replicate 99 98) = [65]"
  "length (65 # replicate 99 98) = 100"
  by (simp_all add: py_lower_def py_lower_cp_def capitals_def INITIALS_def)

lemma MATCH_ALL_bits:
  "MATCH_ALL AND MATCH_STARTSWITH \<noteq> 0" "MATCH_ALL AND MATCH_CAPITALS \<noteq> 0"
  "MATCH_ALL AND MATCH_ATOM \<noteq> 0" "MATCH_ALL AND MATCH_INITIALS_STARTSWITH \<noteq> 0"
  "MATCH_ALL AND MATCH_INITIALS_CONTAIN \<noteq> 0" "MATCH_ALL AND MATCH_SUBSTRING \<noteq> 0"
  "MATCH_ALL AND MATCH_ALLCHARS \<noteq> 0"
  by (simp_all add: MATCH_ALL_def match_defs)

section \<open>The order of the rules\<close>




text \<open>
  The pre-filter is not implied by the rules: the dotless i U+0131 as value and the
  word i under ALLCHARS alone. The pattern matches, since \<open>re.IGNORECASE\<close> takes the
  two for the same letter, but \<open>str.lower\<close> leaves the dotless i as it is, so the
  pre-filter returns \<open>(0, None)\<close>.
\<close>

lemma prefilter_rejects_pattern_match:
  "rule_holds MATCH_ALLCHARS [305] (py_lower [105])
   \<and> \<not> set (py_lower [105]) \<subseteq> set (py_lower [305])
   \<and> filter_item plain_workflow [305] [105] MATCH_ALLCHARS False = Inr (0, None)"
  by (simp add: rule_holds_simps py_lower_def py_lower_cp_def ci_eq_def extra_cases_def
      filter_item_def Let_def compared_value_def folding_def)

lemma plain_compared_value: "compared_value plain_workflow v w fd = v"
  by (simp add: compared_value_def plain_workflow_def)

lemma filter_item_returns:
  assumes "w \<noteq> []"
  shows "\<exists>s r. filter_item self v w m fd = Inr (s, r)"
  using filter_item_first_match[OF assms, of self v m fd]
  by (metis surj_pair)

lemma first_match_None_iff:
  "snd (first_match m v q) = None \<longleftrightarrow>
   \<not> list_ex (\<lambda>b. m AND b \<noteq> 0 \<and> rule_holds b v q) rule_order"
proof (cases "find (\<lambda>r. m AND r \<noteq> 0 \<and> rule_holds r v q) rule_order")
  case None
  then have "\<not> list_ex (\<lambda>b. m AND b \<noteq> 0 \<and> rule_holds b v q) rule_order"
    by (simp add: find_None_iff list_ex_iff)
  with None show ?thesis by (simp add: first_match_def)
next
  case (Some r)
  then have "r \<in> set rule_order \<and> m AND r \<noteq> 0 \<and> rule_holds r v q"
    by (auto simp: find_Some_iff)
  then have "list_ex (\<lambda>b. m AND b \<noteq> 0 \<and> rule_holds b v q) rule_order"
    by (auto simp: list_ex_iff)
  with Some show ?thesis by (simp add: first_match_def)
qed

section \<open>The sign of a score\<close>

text \<open>
  The rules that score by length subtract \<open>len(value) / len(query)\<close> from 100, 95 or
  90. When the value compared has fewer than 90 times as many characters as the word,
  the score of \<open>_filter_item\<close> is not negative, it is 0 exactly when the rule
  returned is \<open>None\<close>, and the rule is \<open>None\<close> exactly when the pre-filter
  rejects the value or no active rule's condition holds.
\<close>

lemma score_nonnegative_short_value:
  assumes "w \<noteq> []" and "length (compared_value self v w fd) < 90 * length w"
  shows "\<exists>s r. filter_item self v w m fd = Inr (s, r) \<and> 0 \<le> s \<and> (s = 0 \<longleftrightarrow> r = None) \<and>
           (r = None \<longleftrightarrow>
              \<not> (set (py_lower w) \<subseteq> set (py_lower (compared_value self v w fd)) \<and>
                 list_ex (\<lambda>b. m AND b \<noteq> 0 \<and> rule_holds b (compared_value self v w fd) (py_lower w))
                    rule_order))"
proof -
  define v' where "v' = compared_value self v w fd"
  define q where "q = py_lower w"
  have len: "length v' < 90 * length q"
    using assms(2) by (simp add: v'_def q_def length_py_lower)
  have res: "filter_item self v w m fd =
      Inr (if set q \<subseteq> set (py_lower v') then first_match m v' q else (0, None))"
    using filter_item_first_match[OF assms(1)] by (simp add: v'_def q_def)
  have none: "snd (first_match m v' q) = None \<longleftrightarrow>
      \<not> list_ex (\<lambda>b. m AND b \<noteq> 0 \<and> rule_holds b v' q) rule_order"
    by (rule first_match_None_iff)
  show ?thesis
  proof (cases "set q \<subseteq> set (py_lower v')")
    case False
    with res show ?thesis by (simp add: v'_def q_def)
  next
    case True
    from first_match_cases[of m v' q] show ?thesis
    proof
      assume "first_match m v' q = (0, None)"
      with res none True show ?thesis by (simp add: v'_def q_def)
    next
      assume "\<exists>r. r \<in> set rule_order \<and> m AND r \<noteq> 0 \<and> rule_holds r v' q \<and>
          first_match m v' q = (rule_score r v' q, Some r)"
      then obtain r where r: "r \<in> set rule_order" "rule_holds r v' q"
          "first_match m v' q = (rule_score r v' q, Some r)" by blast
      from rule_score_pos[OF r(1,2) len] have "0 < rule_score r v' q" .
      with res r(3) none True show ?thesis by (simp add: v'_def q_def)
    qed
  qed
qed

section \<open>The rule mask\<close>

text \<open>
  Claim C9: for every value, word and rule mask, the rule that \<open>_filter_item\<close>
  returns is \<open>None\<close> or one of the seven rule bits, and that bit is set in the mask,
  so a rule whose bit is absent from the mask never produces the result; a mask with
  none of the rule bits (only bits outside \<open>MATCH_ALL\<close>) gives \<open>(0, None)\<close>. For
  a non-empty word \<open>_filter_item\<close> does return, and with the rule \<open>None\<close> the
  score is 0.
\<close>

theorem filter_item_rule_in_mask:
  "(w \<noteq> [] \<longrightarrow> (\<exists>s r. filter_item self v w m fd = Inr (s, r) \<and> (r = None \<longrightarrow> s = 0)))
   \<and> (\<forall>s r. filter_item self v w m fd = Inr (s, Some r) \<longrightarrow> r \<in> set rule_order \<and> m AND r \<noteq> 0)
   \<and> (m AND MATCH_ALL = 0 \<longrightarrow> filter_item self v w m fd = Inr (0, None))"
proof -
  define q where "q = py_lower w"
  define v' where "v' = compared_value self v w fd"
  have returns: "\<exists>s r. filter_item self v w m fd = Inr (s, r) \<and> (r = None \<longrightarrow> s = 0)"
    if w: "w \<noteq> []"
    using filter_item_first_match[OF w, of self v m fd] first_match_cases[of m v' q]
    unfolding q_def v'_def by (auto split: if_splits)
  have rule: "r \<in> set rule_order \<and> m AND r \<noteq> 0"
    if res: "filter_item self v w m fd = Inr (s, Some r)" for s r
  proof (cases "w = []")
    case False
    from filter_item_first_match[OF False, of self v m fd] res
    have "first_match m v' q = (s, Some r)" by (simp add: q_def v'_def split: if_splits)
    with first_match_cases[of m v' q] show ?thesis by auto
  next
    case True
    from res show ?thesis
      unfolding filter_item_def Let_def True
      by (simp add: py_lower_def length_score_def rule_order_def
          split: if_splits option.splits prod.splits)
  qed
  have inert: "filter_item self v w m fd = Inr (0, None)" if m: "m AND MATCH_ALL = 0"
  proof -
    have z: "m AND r = 0" if "r \<in> set rule_order" for r
      using m that by (rule and_rule_bits)
    have "m AND MATCH_STARTSWITH = 0" "m AND MATCH_CAPITALS = 0" "m AND MATCH_ATOM = 0"
      "m AND MATCH_INITIALS_STARTSWITH = 0" "m AND MATCH_INITIALS_CONTAIN = 0"
      "m AND MATCH_SUBSTRING = 0" "m AND MATCH_ALLCHARS = 0"
      by (simp_all add: z rule_order_def)
    then show ?thesis by (simp add: filter_item_def Let_def)
  qed
  from returns rule inert show ?thesis by blast
qed

theorem filter_item_rule_in_mask_witness:
  "(filter_item plain_workflow [97, 98] [97] MATCH_STARTSWITH True :: exn + _)
       = Inr (98, Some MATCH_STARTSWITH)
   \<and> MATCH_STARTSWITH \<in> set rule_order \<and> MATCH_STARTSWITH AND MATCH_STARTSWITH \<noteq> 0
   \<and> (128::int) AND MATCH_ALL = 0
   \<and> (filter_item plain_workflow [97, 98] [97] 128 True :: exn + _) = Inr (0, None)"
proof -
  have e: "(filter_item plain_workflow [97, 98] [97] MATCH_STARTSWITH True :: exn + _)
       = Inr (98, Some MATCH_STARTSWITH)"
    by (simp add: filter_item_def Let_def plain_compared_value length_score_def
      py_lower_def py_lower_cp_def MATCH_STARTSWITH_def)
  have m: "(128::int) AND MATCH_ALL = 0" by (simp add: MATCH_ALL_def)
  from filter_item_rule_in_mask[of "[97]" plain_workflow "[97, 98]" MATCH_STARTSWITH True]
    e have "MATCH_STARTSWITH \<in> set rule_order \<and> MATCH_STARTSWITH AND MATCH_STARTSWITH \<noteq> 0"
    by blast
  moreover from filter_item_rule_in_mask[of "[97]" plain_workflow "[97, 98]" 128 True] m
  have "(filter_item plain_workflow [97, 98] [97] 128 True :: exn + _) = Inr (0, None)"
    by blast
  ultimately show ?thesis using e m by simp
qed

lemma py_strip_id:
  assumes "s \<noteq> []" and "\<not> py_isspace (hd s)" and "\<not> py_isspace (last s)"
  shows "py_strip s = s"
proof -
  have "dropWhile py_isspace s = s"
    using assms(2) by (simp add: dropWhile_eq_self_iff)
  moreover have "dropWhile py_isspace (rev s) = rev s"
    using assms(1,3) by (simp add: dropWhile_eq_self_iff hd_rev)
  ultimately show ?thesis by (simp add: py_strip_def)
qed

lemma query_words_single: "query_words [97] = [[97]]"
  by (simp add: query_words_def py_split_def py_strip_def py_isspace_def)

lemma strip_long_value: "py_strip (65 # replicate 99 98) = 65 # replicate 99 98"
  by (rule py_strip_id) (simp_all add: py_isspace_def)

lemma strip_a: "py_strip [97] = [97]"
  by (simp add: py_strip_def py_isspace_def)

lemma long_value_startswith:
  "filter_item plain_workflow (65 # replicate 99 98) [97] MATCH_ALL fd = Inr (0, Some MATCH_STARTSWITH)"
  by (simp add: filter_item_def Let_def plain_compared_value long_value_facts length_score_def
      MATCH_ALL_bits py_lower_def py_lower_cp_def)

section \<open>A matching rule with score zero\<close>

text \<open>
  Claim C10: there are a value, a word and a rule mask for which the condition of the
  first active rule holds (STARTSWITH, the value being 100 times as long as the word)
  and \<open>_filter_item\<close> returns the score 0 with that rule, not \<open>(0, None)\<close>;
  \<open>filter\<close> then drops the candidate, although a later active rule (CAPITALS)
  holds with a positive score. The value here is one capital A followed by 99 letters
  b, the word is a, and all rules are active.
\<close>

theorem zero_score_rejects:
  "\<exists>v w m. w \<noteq> [] \<and> m AND MATCH_STARTSWITH \<noteq> 0
     \<and> rule_holds MATCH_STARTSWITH v (py_lower w) \<and> length v = 100 * length w
     \<and> filter_item plain_workflow v w m True = Inr (0, Some MATCH_STARTSWITH)
     \<and> m AND MATCH_CAPITALS \<noteq> 0 \<and> rule_holds MATCH_CAPITALS v (py_lower w)
     \<and> 0 < rule_score MATCH_CAPITALS v (py_lower w)
     \<and> filter_items plain_workflow str_lt w [v] str_key False False 0 0 m True = Inr (Items [])"
proof -
  let ?v = "65 # replicate 99 98"
  have 1: "rule_holds MATCH_STARTSWITH ?v (py_lower [97])"
    by (simp add: rule_holds_simps py_lower_def py_lower_cp_def)
  have 2: "rule_holds MATCH_CAPITALS ?v (py_lower [97])"
    by (simp add: rule_holds_simps long_value_facts py_lower_def py_lower_cp_def)
  have 3: "0 < rule_score MATCH_CAPITALS ?v (py_lower [97])"
    by (simp add: rule_score_simps long_value_facts py_lower_def)
  have 4: "filter_items plain_workflow str_lt [97] [?v] str_key False False 0 0 MATCH_ALL True
      = Inr (Items [])"
    by (simp add: filter_items_def Let_def strip_a settings_get_def plain_workflow_def
        str_key_def strip_long_value query_words_single
        long_value_startswith[unfolded plain_workflow_def] py_sort_def)
  show ?thesis
    apply (rule exI[of _ ?v], rule exI[of _ "[97]"], rule exI[of _ MATCH_ALL])
    using 1 2 3 4 long_value_startswith[of True]
    by (simp add: MATCH_ALL_bits)
qed

section \<open>Folding and a non-ASCII query\<close>

text \<open>
  Claim C8 says that for a word with a non-ASCII character \<open>_filter_item\<close> does the
  same with \<open>fold_diacritics\<close> true and false. \<open>_filter_item\<close> lowercases the
  word before it asks \<open>isascii\<close>, and the Kelvin sign U+212A lowercases to the ASCII
  letter k: for the word of that one character and the key "k" followed by "sharp s",
  the key is folded to \<open>kss\<close> and scores \<open>100 - 3/1\<close> with the flag true, and is
  left alone and scores \<open>100 - 2/1\<close> with the flag false.
\<close>

theorem kelvin_query_folds:
  "\<not> isascii [8490]
   \<and> filter_item example_workflow [107, 223] [8490] MATCH_ALL True = Inr (97, Some MATCH_STARTSWITH)
   \<and> filter_item example_workflow [107, 223] [8490] MATCH_ALL False = Inr (98, Some MATCH_STARTSWITH)"
  by (simp add: isascii_def filter_item_def Let_def compared_value_def folding_def
      example_workflow_def fold_example_def length_score_def MATCH_ALL_bits py_lower_def
      py_lower_cp_def)

section \<open>The ATOM rule\<close>

lemma split_where_takeWhile:
  "split_where P v = takeWhile (\<lambda>c. \<not> P c) v #
     (case dropWhile (\<lambda>c. \<not> P c) v of [] \<Rightarrow> [] | d # ds \<Rightarrow> split_where P ds)"
proof (induction v)
  case Nil
  then show ?case by simp
next
  case (Cons c cs)
  show ?case
  proof (cases "P c")
    case True
    then show ?thesis by simp
  next
    case False
    with Cons show ?thesis by simp
  qed
qed

lemma nonempty_split_runs:
  "filter (\<lambda>s. s \<noteq> []) (split_on_delimiters v) = alnum_runs v"
proof (induction v rule: alnum_runs.induct)
  case 1
  then show ?case by (simp add: split_on_delimiters_def)
next
  case (2 c cs)
  show ?case
  proof (cases "is_alnum c")
    case False
    with 2 show ?thesis by (simp add: split_on_delimiters_def)
  next
    case True
    have IH: "filter (\<lambda>s. s \<noteq> []) (split_on_delimiters (dropWhile is_alnum cs))
        = alnum_runs (dropWhile is_alnum cs)"
      using 2(1)[OF True] .
    have sp: "split_where (\<lambda>c. \<not> is_alnum c) cs = takeWhile is_alnum cs #
       (case dropWhile is_alnum cs of [] \<Rightarrow> [] | d # ds \<Rightarrow> split_where (\<lambda>c. \<not> is_alnum c) ds)"
      using split_where_takeWhile[of "\<lambda>c. \<not> is_alnum c" cs] by simp
    show ?thesis
    proof (cases "dropWhile is_alnum cs")
      case Nil
      have "alnum_runs (dropWhile is_alnum cs) = []"
        by (simp only: Nil alnum_runs.simps)
      moreover have "split_where (\<lambda>c. \<not> is_alnum c) cs = [takeWhile is_alnum cs]"
        by (simp only: sp Nil list.case)
      ultimately show ?thesis using True by (simp add: split_on_delimiters_def)
    next
      case (Cons d ds)
      then have d: "\<not> is_alnum d"
        by (metis hd_dropWhile list.distinct(1) list.sel(1))
      with IH Cons have "filter (\<lambda>s. s \<noteq> []) (split_where (\<lambda>c. \<not> is_alnum c) ds)
          = alnum_runs (dropWhile is_alnum cs)"
        by (simp add: split_on_delimiters_def)
      with True sp Cons show ?thesis by (simp add: split_on_delimiters_def)
    qed
  qed
qed

lemma atoms_of_runs:
  assumes "q \<noteq> []"
  shows "q \<in> set (atoms_of v) \<longleftrightarrow> q \<in> set (map py_lower (alnum_runs v))"
proof -
  have "q \<in> set (map py_lower xs) \<longleftrightarrow> q \<in> set (map py_lower (filter (\<lambda>s. s \<noteq> []) xs))" for xs
    using assms by (auto simp: py_lower_Nil_iff image_iff)
  from this[of "split_on_delimiters v"] show ?thesis
    by (simp only: atoms_of_def nonempty_split_runs)
qed

text \<open>
  Claim C7: for every value and every non-empty word, with ATOM the only active rule,
  \<open>_filter_item\<close> matches exactly when the lowercased word is one of the atoms of the
  value compared, the atoms being its maximal runs of alphanumeric characters,
  lowercased; the score is then \<open>100 - len(value) / len(word)\<close>, and otherwise the
  result is \<open>(0, None)\<close>.
\<close>

theorem atom_rule:
  assumes "w \<noteq> []"
  shows "filter_item self v w MATCH_ATOM fd =
         (if py_lower w \<in> set (map py_lower (alnum_runs (compared_value self v w fd)))
          then Inr (100 - of_nat (length (compared_value self v w fd)) / of_nat (length w),
                    Some MATCH_ATOM)
          else Inr (0, None))"
proof -
  define q where "q = py_lower w"
  define v' where "v' = compared_value self v w fd"
  have q: "q \<noteq> []" "length q = length w"
    using assms by (simp_all add: q_def py_lower_Nil_iff length_py_lower)
  have bits: "MATCH_ATOM AND MATCH_STARTSWITH = 0" "MATCH_ATOM AND MATCH_CAPITALS = 0"
    "MATCH_ATOM AND MATCH_ATOM \<noteq> 0" "MATCH_ATOM AND MATCH_INITIALS_STARTSWITH = 0"
    "MATCH_ATOM AND MATCH_INITIALS_CONTAIN = 0" "MATCH_ATOM AND MATCH_SUBSTRING = 0"
    "MATCH_ATOM AND MATCH_ALLCHARS = 0" "MATCH_ATOM \<noteq> 0"
    by (simp_all add: match_defs)
  have fm: "first_match MATCH_ATOM v' q =
      (if q \<in> set (atoms_of v') then (rule_score MATCH_ATOM v' q, Some MATCH_ATOM) else (0, None))"
    by (simp add: first_match_def rule_order_def bits rule_holds_simps)
  have res: "filter_item self v w MATCH_ATOM fd =
      Inr (if set q \<subseteq> set (py_lower v') then first_match MATCH_ATOM v' q else (0, None))"
    using filter_item_first_match[OF assms, of self v MATCH_ATOM fd]
    by (simp only: q_def v'_def)
  have runs: "q \<in> set (atoms_of v') \<longleftrightarrow> q \<in> set (map py_lower (alnum_runs v'))"
    using q(1) by (rule atoms_of_runs)
  have sc: "rule_score MATCH_ATOM v' q = 100 - of_nat (length v') / of_nat (length w)"
    by (simp add: rule_score_simps q(2))
  show ?thesis
  proof (cases "q \<in> set (atoms_of v')")
    case True
    then have "set q \<subseteq> set (py_lower v')" by (rule set_atoms_of)
    with res fm True sc have "filter_item self v w MATCH_ATOM fd =
        Inr (100 - of_nat (length v') / of_nat (length w), Some MATCH_ATOM)" by simp
    moreover from True runs have "q \<in> set (map py_lower (alnum_runs v'))" by simp
    ultimately show ?thesis unfolding q_def v'_def by (simp only: if_True)
  next
    case False
    with res fm have "filter_item self v w MATCH_ATOM fd = Inr (0, None)" by simp
    moreover from False runs have "q \<notin> set (map py_lower (alnum_runs v'))" by simp
    ultimately show ?thesis unfolding q_def v'_def by (simp only: if_False)
  qed
qed

theorem atom_rule_witness:
  "cps ''chrome'' \<noteq> [] \<and>
   filter_item plain_workflow (cps ''Google Chrome'') (cps ''chrome'') MATCH_ATOM True
     = Inr (587 / 6, Some MATCH_ATOM)"
proof -
  have w: "cps ''chrome'' \<noteq> []" by (simp add: cps_def)
  have r: "alnum_runs (cps ''Google Chrome'') = [cps ''Google'', cps ''Chrome'']"
    by (simp add: cps_def is_alnum_def)
  have l: "py_lower (cps ''chrome'') = cps ''chrome''" "py_lower (cps ''Chrome'') = cps ''chrome''"
    "py_lower (cps ''Google'') = cps ''google''"
    by (simp_all add: cps_def py_lower_def py_lower_cp_def)
  have n: "cps ''chrome'' \<noteq> cps ''google''" by (simp add: cps_def)
  show ?thesis
    using atom_rule[OF w, of plain_workflow "cps ''Google Chrome''" True] w
    by (simp add: plain_compared_value r l n) (simp add: cps_def)
qed

section \<open>Facts about \<open>filter\<close>\<close>

lemma dropWhile_all: "list_all P s \<Longrightarrow> dropWhile P s = []"
  by (induction s) simp_all

lemma py_strip_blank: "list_all py_isspace s \<Longrightarrow> py_strip s = []"
  by (simp add: py_strip_def dropWhile_all)

lemma score_words_skip:
  assumes "score_words self v m fd ws (skip, sc, r) = Inr (skip', sc', r')" and "\<not> skip'"
  shows "\<not> skip \<and> list_all (\<lambda>w. w = [] \<or> (\<exists>s r. filter_item self v w m fd = Inr (s, r) \<and> s \<noteq> 0)) ws"
  using assms
proof (induction ws arbitrary: skip sc r)
  case Nil
  then show ?case by simp
next
  case (Cons w ws)
  show ?case
  proof (cases "w = []")
    case True
    with Cons.prems(1) have "score_words self v m fd ws (skip, sc, r) = Inr (skip', sc', r')"
      by simp
    from Cons.IH[OF this Cons.prems(2)] True show ?thesis by simp
  next
    case False
    with Cons.prems(1) obtain s r0 where f: "filter_item self v w m fd = Inr (s, r0)"
      and rest: "score_words self v m fd ws (skip \<or> s = 0, sc + s, r0) = Inr (skip', sc', r')"
      by (auto split: sum.splits)
    from Cons.IH[OF rest Cons.prems(2)] f show ?thesis by auto
  qed
qed

lemma collect_entry:
  assumes "collect self key q m fd items = Inr es" and "e \<in> set es"
  shows "\<exists>item k sc r. item \<in> set items \<and> key item = Inr k \<and> py_strip k \<noteq> [] \<and>
           score_words self (py_strip k) m fd (query_words q) (False, 0, None) = Inr (False, sc, r) \<and>
           sc \<noteq> 0 \<and> e = ((100 / sc, py_lower (py_strip k), sc), (item, sc, r))"
  using assms
proof (induction items arbitrary: es)
  case Nil
  then show ?case by simp
next
  case (Cons x xs)
  from Cons.prems(1) obtain k where k: "key x = Inr k"
    by (auto split: sum.splits)
  show ?case
  proof (cases "py_strip k = []")
    case True
    with Cons.prems k have "collect self key q m fd xs = Inr es" by simp
    from Cons.IH[OF this Cons.prems(2)] show ?thesis by auto
  next
    case False
    with Cons.prems(1) k obtain skip sc r where
      sw: "score_words self (py_strip k) m fd (query_words q) (False, 0, None) = Inr (skip, sc, r)"
      by (auto simp: Let_def split: sum.splits)
    show ?thesis
    proof (cases "skip \<or> sc = 0")
      case True
      with Cons.prems(1) k False sw have "collect self key q m fd xs = Inr es"
        by (auto simp: Let_def)
      from Cons.IH[OF this Cons.prems(2)] show ?thesis by auto
    next
      case keep: False
      with Cons.prems(1) k False sw obtain rest where
        rest: "collect self key q m fd xs = Inr rest"
        and es: "es = ((100 / sc, py_lower (py_strip k), sc), (x, sc, r)) # rest"
        by (auto simp: Let_def split: sum.splits)
      from Cons.prems(2) es consider
        "e = ((100 / sc, py_lower (py_strip k), sc), (x, sc, r))" | "e \<in> set rest" by auto
      then show ?thesis
      proof cases
        case 1
        with k False sw keep show ?thesis by auto
      next
        case 2
        from Cons.IH[OF rest 2] show ?thesis by auto
      qed
    qed
  qed
qed

lemma sort_insert_set: "sort_insert lt x ys = Inr zs \<Longrightarrow> set zs = insert x (set ys)"
proof (induction ys arbitrary: zs)
  case Nil
  then show ?case by auto
next
  case (Cons y ys)
  from Cons.prems obtain b where b: "entry_lt lt y x = Inr b"
    by (cases "entry_lt lt y x") simp_all
  show ?case
  proof (cases b)
    case True
    with Cons.prems b obtain zs' where zs': "sort_insert lt x ys = Inr zs'" "zs = y # zs'"
      by (cases "sort_insert lt x ys") simp_all
    from Cons.IH[OF zs'(1)] zs'(2) show ?thesis by auto
  next
    case False
    with Cons.prems b have "zs = x # y # ys" by simp
    then show ?thesis by auto
  qed
qed

lemma sort_entries_set: "sort_entries lt xs = Inr ys \<Longrightarrow> set ys = set xs"
proof (induction xs arbitrary: ys)
  case Nil
  then show ?case by auto
next
  case (Cons x xs)
  from Cons.prems obtain ys' where ys': "sort_entries lt xs = Inr ys'" "sort_insert lt x ys' = Inr ys"
    by (cases "sort_entries lt xs") simp_all
  from Cons.IH[OF ys'(1)] sort_insert_set[OF ys'(2)] show ?case by simp
qed

lemma py_sort_set: "py_sort lt reverse xs = Inr ys \<Longrightarrow> set ys = set xs"
proof (cases reverse)
  case True
  assume "py_sort lt reverse xs = Inr ys"
  with True obtain zs where zs: "sort_entries lt (rev xs) = Inr zs" "ys = rev zs"
    by (cases "sort_entries lt (rev xs)") (simp_all add: py_sort_def)
  from sort_entries_set[OF zs(1)] zs(2) show ?thesis by simp
next
  case False
  assume "py_sort lt reverse xs = Inr ys"
  with False have "sort_entries lt xs = Inr ys" by (simp add: py_sort_def)
  then show ?thesis by (rule sort_entries_set)
qed

lemma set_py_take: "set (py_take n xs) \<subseteq> set xs"
  by (auto simp: py_take_def dest: in_set_takeD)

lemma filter_items_output:
  assumes "filter_items self lt query items key asc inc mn mx m fd = Inr out"
    and "py_strip query \<noteq> []"
    and "x \<in> set (output_items out)"
  shows "\<exists>es e. collect self key (py_strip query) m (settings_get self fd) items = Inr es \<and>
           e \<in> set es \<and> x = fst (snd e)"
proof -
  from assms(2) have q: "query \<noteq> []" by (auto simp: py_strip_def)
  from assms(1,2) q obtain es sorted_results where
    es: "collect self key (py_strip query) m (settings_get self fd) items = Inr es"
    and so: "py_sort lt asc es = Inr sorted_results"
    by (auto simp: filter_items_def Let_def split: sum.splits)
  define r1 where "r1 = map snd sorted_results"
  define r2 where "r2 = (if mn \<noteq> 0 then filter (\<lambda>r. fst (snd r) > mn) r1 else r1)"
  define r3 where "r3 = (if mx \<noteq> 0 \<and> int (length r2) > mx then py_take mx r2 else r2)"
  have "filter_items self lt query items key asc inc mn mx m fd =
      (if inc then Inr (Scored r3) else Inr (Items (map fst r3)))"
    unfolding filter_items_def Let_def r1_def r2_def r3_def
    by (simp only: q assms(2) es so if_False sum.case)
  with assms(1) have out: "out = (if inc then Scored r3 else Items (map fst r3))"
    by (simp split: if_splits)
  then have "x \<in> fst ` set r3" using assms(3) by (auto split: if_splits)
  moreover have "set r3 \<subseteq> set r2" using set_py_take[of mx r2] by (auto simp: r3_def)
  moreover have "set r2 \<subseteq> set r1" by (auto simp: r2_def)
  moreover have "set r1 = snd ` set es" using py_sort_set[OF so] by (simp add: r1_def)
  ultimately obtain e where "e \<in> set es" "x = fst (snd e)" by auto
  with es show ?thesis by blast
qed

lemmas item_defs = Let_def plain_workflow_def filter_item_def
  compared_value_def folding_def isascii_def py_lower_def py_lower_cp_def length_score_def
  MATCH_ALL_bits

lemma plain_settings: "settings_get plain_workflow fd = fd"
  by (simp add: settings_get_def plain_workflow_def)

lemmas sort_defs = py_sort_def entry_lt_def sortkey_lt_def scored_lt_def str_lt_def dict_lt_def

lemma strip_adobe:
  "py_strip (cps ''adobe illust'') = cps ''adobe illust''"
  "py_strip (cps ''Adobe Photoshop'') = cps ''Adobe Photoshop''"
  "py_strip (cps ''Adobe Illustrator'') = cps ''Adobe Illustrator''"
  by (rule py_strip_id; simp add: cps_def py_isspace_def)+

lemma words_adobe: "query_words (cps ''adobe illust'') = [cps ''adobe'', cps ''illust'']"
  by (simp add: query_words_def py_split_def cps_def py_strip_def py_isspace_def)

lemma fi_adobe:
  "filter_item plain_workflow (cps ''Adobe Photoshop'') (cps ''adobe'') MATCH_ALL True
     = Inr (97, Some MATCH_STARTSWITH)"
  "filter_item plain_workflow (cps ''Adobe Photoshop'') (cps ''illust'') MATCH_ALL True
     = Inr (0, None)"
  "filter_item plain_workflow (cps ''Adobe Illustrator'') (cps ''adobe'') MATCH_ALL True
     = Inr (483 / 5, Some MATCH_STARTSWITH)"
  by (simp_all add: item_defs cps_def)

lemma fi_illust:
  "filter_item plain_workflow (cps ''Adobe Illustrator'') (cps ''illust'') MATCH_ALL True
     = Inr (523 / 6, Some MATCH_SUBSTRING)"
  by (simp add: item_defs cps_def capitals_def INITIALS_def atoms_of_def initials_of_def
      split_on_delimiters_def is_alnum_def sublist_code)

lemma collect_adobe:
  "collect plain_workflow str_key (cps ''adobe illust'') MATCH_ALL True
     [cps ''Adobe Photoshop'', cps ''Adobe Illustrator''] =
   Inr [((3000 / 5513, cps ''adobe illustrator'', 5513 / 30),
         (cps ''Adobe Illustrator'', 5513 / 30, Some MATCH_SUBSTRING))]"
proof -
  have ne: "cps ''adobe'' \<noteq> []" "cps ''illust'' \<noteq> []" "cps ''Adobe Photoshop'' \<noteq> []"
    "cps ''Adobe Illustrator'' \<noteq> []"
    by (simp_all add: cps_def)
  have lo: "py_lower (cps ''Adobe Illustrator'') = cps ''adobe illustrator''"
    by (simp add: cps_def py_lower_def py_lower_cp_def)
  show ?thesis
    by (simp add: Let_def str_key_def strip_adobe words_adobe fi_adobe fi_illust ne lo)
qed

lemma filter_adobe:
  "filter_items plain_workflow str_lt (cps ''adobe illust'')
     [cps ''Adobe Photoshop'', cps ''Adobe Illustrator''] str_key False False 0 0 MATCH_ALL True
   = Inr (Items [cps ''Adobe Illustrator''])"
proof -
  have ne: "cps ''adobe illust'' \<noteq> []" by (simp add: cps_def)
  show ?thesis
    by (simp add: filter_items_def Let_def strip_adobe ne plain_settings collect_adobe py_sort_def
      del: collect.simps)
qed

lemma strip_ab: "py_strip [97] = [97]" "py_strip [97, 98] = [97, 98]" "py_strip [97, 99] = [97, 99]"
  by (simp_all add: py_strip_def py_isspace_def)

lemma fi_ab:
  "filter_item plain_workflow [97] [97] MATCH_ALL True = Inr (99, Some MATCH_STARTSWITH)"
  "filter_item plain_workflow [97, 98] [97] MATCH_ALL True = Inr (98, Some MATCH_STARTSWITH)"
  "filter_item plain_workflow [97, 99] [97] MATCH_ALL True = Inr (98, Some MATCH_STARTSWITH)"
  by (simp_all add: item_defs)

lemma collect_ab:
  "collect plain_workflow str_key [97] MATCH_ALL True [[97, 98], [97, 99]] =
     Inr [((50 / 49, [97, 98], 98), ([97, 98], 98, Some MATCH_STARTSWITH)),
          ((50 / 49, [97, 99], 98), ([97, 99], 98, Some MATCH_STARTSWITH))]"
  by (simp add: Let_def str_key_def strip_ab query_words_single fi_ab py_lower_def py_lower_cp_def)

lemma collect_dicts:
  "collect plain_workflow title_key [97] MATCH_ALL True [([97], 2), ([97], 3)] =
     Inr [((100 / 99, [97], 99), (([97], 2), 99, Some MATCH_STARTSWITH)),
          ((100 / 99, [97], 99), (([97], 3), 99, Some MATCH_STARTSWITH))]"
  by (simp add: Let_def title_key_def strip_ab query_words_single fi_ab py_lower_def py_lower_cp_def)

text \<open>
  What \<open>filter\<close> raises and when it returns: the error of the first item on which
  the key function raises is the error of \<open>filter\<close>, and \<open>filter\<close> returns
  whenever the key function returns a string for every item and any two items can be
  compared.
\<close>

lemma score_words_returns: "\<exists>st'. score_words self v m fd ws st = Inr st'"
proof (induction ws arbitrary: st)
  case Nil
  show ?case by (rule exI[of _ st]) simp
next
  case (Cons w ws)
  obtain skip sc r where st: "st = (skip, sc, r)" by (metis prod_cases3)
  show ?case
  proof (cases "w = []")
    case True
    with Cons[of "(skip, sc, r)"] st show ?thesis by simp
  next
    case False
    from filter_item_returns[OF False, of self v m fd] obtain s r0
      where f: "filter_item self v w m fd = Inr (s, r0)" by blast
    from Cons[of "(skip \<or> s = 0, sc + s, r0)"] st False f show ?thesis by simp
  qed
qed

lemma collect_key_error:
  assumes "list_all (\<lambda>y. \<exists>k. key y = Inr k) pre" and "key x = Inl e"
  shows "collect self key q m fd (pre @ x # post) = Inl (KeyRaised e)"
  using assms(1)
proof (induction pre)
  case Nil
  with assms(2) show ?case by simp
next
  case (Cons y ys)
  then obtain k where k: "key y = Inr k" by auto
  from Cons have IH: "collect self key q m fd (ys @ x # post) = Inl (KeyRaised e)" by simp
  obtain skip sc r where
    sw: "score_words self (py_strip k) m fd (query_words q) (False, 0, None) = Inr (skip, sc, r)"
    using score_words_returns[of self "py_strip k" m fd "query_words q" "(False, 0, None)"]
    by (metis prod_cases3)
  show ?case by (simp add: k IH sw Let_def)
qed

lemma collect_returns:
  assumes "list_all (\<lambda>y. \<exists>k. key y = Inr k) items"
  shows "\<exists>es. collect self key q m fd items = Inr es"
  using assms
proof (induction items)
  case Nil
  then show ?case by simp
next
  case (Cons y ys)
  then obtain k where k: "key y = Inr k" by auto
  from Cons obtain es where IH: "collect self key q m fd ys = Inr es" by auto
  obtain skip sc r where
    sw: "score_words self (py_strip k) m fd (query_words q) (False, 0, None) = Inr (skip, sc, r)"
    using score_words_returns[of self "py_strip k" m fd "query_words q" "(False, 0, None)"]
    by (metis prod_cases3)
  show ?case by (simp add: k IH sw Let_def)
qed

lemma filter_items_key_error:
  assumes "py_strip query \<noteq> []"
    and "list_all (\<lambda>y. \<exists>k. key y = Inr k) pre" and "key x = Inl e"
  shows "filter_items self lt query (pre @ x # post) key asc inc mn mx m fd = Inl (KeyRaised e)"
proof -
  from assms(1) have q: "query \<noteq> []" by (auto simp: py_strip_def)
  show ?thesis
    unfolding filter_items_def Let_def
    by (simp only: q assms(1) collect_key_error[OF assms(2,3)] if_False sum.case)
qed

lemma sort_insert_returns:
  assumes "list_all (\<lambda>y. \<exists>b. entry_lt lt y x = Inr b) ys"
  shows "\<exists>zs. sort_insert lt x ys = Inr zs"
  using assms
proof (induction ys)
  case Nil
  then show ?case by simp
next
  case (Cons y ys)
  then obtain b zs where b: "entry_lt lt y x = Inr b" and zs: "sort_insert lt x ys = Inr zs"
    by auto
  then show ?case by (cases b) simp_all
qed

lemma sort_entries_returns:
  assumes "\<And>a b. a \<in> set xs \<Longrightarrow> b \<in> set xs \<Longrightarrow> \<exists>t. entry_lt lt a b = Inr t"
  shows "\<exists>ys. sort_entries lt xs = Inr ys"
  using assms
proof (induction xs)
  case Nil
  then show ?case by simp
next
  case (Cons x xs)
  then obtain ys where ys: "sort_entries lt xs = Inr ys" by (metis list.set_intros(2))
  have "list_all (\<lambda>y. \<exists>b. entry_lt lt y x = Inr b) ys"
    using Cons.prems sort_entries_set[OF ys] by (simp add: list_all_iff)
  from sort_insert_returns[OF this] ys show ?case by simp
qed

lemma py_sort_returns:
  assumes "\<And>a b. a \<in> set xs \<Longrightarrow> b \<in> set xs \<Longrightarrow> \<exists>t. entry_lt lt a b = Inr t"
  shows "\<exists>ys. py_sort lt reverse xs = Inr ys"
proof (cases reverse)
  case True
  from sort_entries_returns[of "rev xs" lt] assms obtain ys
    where "sort_entries lt (rev xs) = Inr ys" by auto
  with True show ?thesis by (simp add: py_sort_def)
next
  case False
  from sort_entries_returns[of xs lt] assms obtain ys
    where "sort_entries lt xs = Inr ys" by auto
  with False show ?thesis by (simp add: py_sort_def)
qed

lemma collected_comparable:
  assumes "collect self key q m fd items = Inr es" and "a \<in> set es" and "b \<in> set es"
    and "\<forall>x y. lt x y \<noteq> None"
  shows "\<exists>t. entry_lt lt a b = Inr t"
proof -
  from collect_entry[OF assms(1,2)] obtain x kx sx rx where
    a: "key x = Inr kx" "a = ((100 / sx, py_lower (py_strip kx), sx), (x, sx, rx))"
    "score_words self (py_strip kx) m fd (query_words q) (False, 0, None) = Inr (False, sx, rx)"
    by blast
  from collect_entry[OF assms(1,3)] obtain y ky sy ry where
    b: "key y = Inr ky" "b = ((100 / sy, py_lower (py_strip ky), sy), (y, sy, ry))"
    "score_words self (py_strip ky) m fd (query_words q) (False, 0, None) = Inr (False, sy, ry)"
    by blast
  show ?thesis
  proof (cases "x = y")
    case True
    with a b have "b = a" by simp
    with a(2) have "entry_lt lt a b = Inr False" by (simp add: entry_lt_def scored_lt_def)
    then show ?thesis by blast
  next
    case False
    from assms(4) obtain t where "lt x y = Some t" by auto
    with False a(2) b(2) show ?thesis by (simp add: entry_lt_def scored_lt_def)
  qed
qed

lemma filter_items_returns:
  assumes "list_all (\<lambda>y. \<exists>k. key y = Inr k) items" and "\<forall>x y. lt x y \<noteq> None"
  shows "\<exists>out. filter_items self lt query items key asc inc mn mx m fd = Inr out"
proof (cases "query = [] \<or> py_strip query = []")
  case True
  then show ?thesis by (auto simp: filter_items_def Let_def)
next
  case False
  from collect_returns[OF assms(1)] obtain es where
    es: "collect self key (py_strip query) m (settings_get self fd) items = Inr es" by blast
  have "\<exists>t. entry_lt lt a b = Inr t" if "a \<in> set es" "b \<in> set es" for a b
    using es that assms(2) by (rule collected_comparable)
  from py_sort_returns[of es lt asc, OF this] obtain ys where
    ys: "py_sort lt asc es = Inr ys" by blast
  from False have q: "query \<noteq> []" "py_strip query \<noteq> []" by simp_all
  show ?thesis
    unfolding filter_items_def Let_def
    by (simp only: q es ys if_False sum.case) (simp split: if_splits)
qed

text \<open>
  The sort leaves the sort keys in ascending order, so without \<open>reverse\<close> two results
  with the same score are in ascending order of their lowercased keys.
\<close>

lemma sortkey_lt_irrefl: "\<not> sortkey_lt k k"
  by (simp add: sortkey_lt_def split: prod.splits)

lemma sortkey_lt_asym: "sortkey_lt a b \<Longrightarrow> \<not> sortkey_lt b a"
  by (auto simp: sortkey_lt_def split: prod.splits if_splits)

lemma sortkey_not_lt_trans:
  assumes "\<not> sortkey_lt b a" and "\<not> sortkey_lt c b"
  shows "\<not> sortkey_lt c a"
proof -
  obtain a1 a2 a3 where a: "a = (a1, a2, a3)" by (metis prod_cases3)
  obtain b1 b2 b3 where b: "b = (b1, b2, b3)" by (metis prod_cases3)
  obtain c1 c2 c3 where c: "c = (c1, c2, c3)" by (metis prod_cases3)
  from assms(1) have ab: "a1 < b1 \<or> (a1 = b1 \<and> (a2 < b2 \<or> (a2 = b2 \<and> a3 \<le> b3)))"
    unfolding a b sortkey_lt_def by (auto split: if_splits)
  from assms(2) have bc: "b1 < c1 \<or> (b1 = c1 \<and> (b2 < c2 \<or> (b2 = c2 \<and> b3 \<le> c3)))"
    unfolding b c sortkey_lt_def by (auto split: if_splits)
  from ab bc have "a1 < c1 \<or> (a1 = c1 \<and> (a2 < c2 \<or> (a2 = c2 \<and> a3 \<le> c3)))"
    by (elim disjE conjE) (auto intro: less_trans)
  then show ?thesis unfolding a c sortkey_lt_def by auto
qed

lemma entry_lt_True: "entry_lt lt y x = Inr True \<Longrightarrow> \<not> sortkey_lt (fst x) (fst y)"
  by (auto simp: entry_lt_def sortkey_lt_irrefl dest: sortkey_lt_asym split: if_splits)

lemma entry_lt_False: "entry_lt lt y x = Inr False \<Longrightarrow> \<not> sortkey_lt (fst y) (fst x)"
  by (auto simp: entry_lt_def sortkey_lt_irrefl split: if_splits)

lemma sort_insert_sorted:
  assumes "sort_insert lt x ys = Inr zs"
    and "sorted_wrt (\<lambda>a b. \<not> sortkey_lt (fst b) (fst a)) ys"
  shows "sorted_wrt (\<lambda>a b. \<not> sortkey_lt (fst b) (fst a)) zs"
  using assms
proof (induction ys arbitrary: zs)
  case Nil
  then show ?case by auto
next
  case (Cons y ys)
  from Cons.prems(1) obtain b where b: "entry_lt lt y x = Inr b"
    by (cases "entry_lt lt y x") simp_all
  from Cons.prems(2) have ys: "sorted_wrt (\<lambda>a b. \<not> sortkey_lt (fst b) (fst a)) ys"
    and y: "\<And>z. z \<in> set ys \<Longrightarrow> \<not> sortkey_lt (fst z) (fst y)" by simp_all
  show ?case
  proof (cases b)
    case True
    with Cons.prems(1) b obtain zs' where zs': "sort_insert lt x ys = Inr zs'" "zs = y # zs'"
      by (cases "sort_insert lt x ys") simp_all
    from Cons.IH[OF zs'(1) ys] have s: "sorted_wrt (\<lambda>a b. \<not> sortkey_lt (fst b) (fst a)) zs'" .
    from b True have "entry_lt lt y x = Inr True" by simp
    then have xy: "\<not> sortkey_lt (fst x) (fst y)" by (rule entry_lt_True)
    have "\<not> sortkey_lt (fst z) (fst y)" if "z \<in> set zs'" for z
    proof -
      from that sort_insert_set[OF zs'(1)] have "z = x \<or> z \<in> set ys" by simp
      with y xy show ?thesis by blast
    qed
    with s zs'(2) show ?thesis by simp
  next
    case False
    with Cons.prems(1) b have zs: "zs = x # y # ys" by simp
    have yx: "\<not> sortkey_lt (fst y) (fst x)" using b False by (auto dest: entry_lt_False)
    have "\<not> sortkey_lt (fst z) (fst x)" if "z \<in> set ys" for z
      using yx y[OF that] by (rule sortkey_not_lt_trans)
    with yx Cons.prems(2) zs show ?thesis by simp
  qed
qed

lemma sort_entries_sorted:
  "sort_entries lt xs = Inr ys \<Longrightarrow> sorted_wrt (\<lambda>a b. \<not> sortkey_lt (fst b) (fst a)) ys"
proof (induction xs arbitrary: ys)
  case Nil
  then show ?case by auto
next
  case (Cons x xs)
  from Cons.prems obtain ys' where ys': "sort_entries lt xs = Inr ys'" "sort_insert lt x ys' = Inr ys"
    by (cases "sort_entries lt xs") simp_all
  from sort_insert_sorted[OF ys'(2) Cons.IH[OF ys'(1)]] show ?case .
qed

lemma sorted_wrt_py_take: "sorted_wrt R xs \<Longrightarrow> sorted_wrt R (py_take n xs)"
  by (simp add: py_take_def sorted_wrt_take)

lemma default_order_ties:
  assumes "filter_items self lt query items key False True mn mx m fd = Inr (Scored rs)"
    and "py_strip query \<noteq> []"
    and "i < j" and "j < length rs"
    and "fst (snd (rs ! i)) = fst (snd (rs ! j))"
    and "key (fst (rs ! i)) = Inr ki" and "key (fst (rs ! j)) = Inr kj"
  shows "py_lower (py_strip ki) \<le> py_lower (py_strip kj)"
proof -
  define R :: "'a scored \<Rightarrow> 'a scored \<Rightarrow> bool" where
    "R = (\<lambda>p1 p2. \<forall>k1 k2. fst (snd p1) = fst (snd p2) \<longrightarrow> key (fst p1) = Inr k1 \<longrightarrow>
            key (fst p2) = Inr k2 \<longrightarrow> py_lower (py_strip k1) \<le> py_lower (py_strip k2))"
  from assms(2) have q: "query \<noteq> []" by (auto simp: py_strip_def)
  from assms(1,2) q obtain es sorted_results where
    es: "collect self key (py_strip query) m (settings_get self fd) items = Inr es"
    and so: "py_sort lt False es = Inr sorted_results"
    by (auto simp: filter_items_def Let_def split: sum.splits)
  define r1 where "r1 = map snd sorted_results"
  define r2 where "r2 = (if mn \<noteq> 0 then filter (\<lambda>r. fst (snd r) > mn) r1 else r1)"
  define r3 where "r3 = (if mx \<noteq> 0 \<and> int (length r2) > mx then py_take mx r2 else r2)"
  have "filter_items self lt query items key False True mn mx m fd = Inr (Scored r3)"
    unfolding filter_items_def Let_def r1_def r2_def r3_def
    by (simp only: q assms(2) es so if_False if_True sum.case)
  with assms(1) have rs: "rs = r3" by simp
  from so have se: "sort_entries lt es = Inr sorted_results" by (simp add: py_sort_def)
  have ks: "sorted_wrt (\<lambda>a b. \<not> sortkey_lt (fst b) (fst a)) sorted_results"
    using se by (rule sort_entries_sorted)
  have "sorted_wrt (\<lambda>a b. R (snd a) (snd b)) sorted_results"
  proof (rule sorted_wrt_mono_rel[OF _ ks])
    fix a b assume ab: "a \<in> set sorted_results" "b \<in> set sorted_results"
      and le: "\<not> sortkey_lt (fst b) (fst a)"
    from ab sort_entries_set[OF se] have "a \<in> set es" "b \<in> set es" by simp_all
    from collect_entry[OF es this(1)] collect_entry[OF es this(2)]
    obtain x kx sx rx y ky sy ry where
      a: "key x = Inr kx" "a = ((100 / sx, py_lower (py_strip kx), sx), (x, sx, rx))"
      and b: "key y = Inr ky" "b = ((100 / sy, py_lower (py_strip ky), sy), (y, sy, ry))"
      by blast
    from le show "R (snd a) (snd b)"
      unfolding R_def a(2) b(2) using a(1) b(1)
      by (auto simp: sortkey_lt_def split: if_splits)
  qed
  then have "sorted_wrt R r1" by (simp add: r1_def sorted_wrt_map)
  then have "sorted_wrt R r2" by (simp add: r2_def sorted_wrt_filter)
  then have "sorted_wrt R r3" by (simp add: r3_def sorted_wrt_py_take)
  with rs assms(3,4) have "R (rs ! i) (rs ! j)" by (simp add: sorted_wrt_nth_less)
  with assms(5-7) show ?thesis by (simp add: R_def)
qed

section \<open>A blank query\<close>

text \<open>
  Claim C3: for every sequence of items and every query that is empty or consists only
  of whitespace, \<open>filter\<close> returns the items it was given, unchanged and in their
  order, whatever \<open>ascending\<close>, \<open>include_score\<close>, \<open>min_score\<close>,
  \<open>max_results\<close>, \<open>match_on\<close> and \<open>fold_diacritics\<close> are: nothing is scored,
  dropped, cut or annotated.
\<close>

theorem blank_query_returns_items:
  assumes "list_all py_isspace query"
  shows "filter_items self lt query items key ascending include_score min_score max_results
           match_on fold_diacritics = Inr (Items items)"
  using py_strip_blank[OF assms] by (simp add: filter_items_def Let_def)

theorem blank_query_returns_items_witness:
  "list_all py_isspace [32, 9, 32] \<and>
   filter_items plain_workflow str_lt [32, 9, 32] [cps ''b'', cps ''a''] str_key True True 50 1
     MATCH_STARTSWITH False = Inr (Items [cps ''b'', cps ''a''])"
proof -
  have b: "list_all py_isspace [32, 9, 32]" by (simp add: py_isspace_def)
  from blank_query_returns_items[OF b] b show ?thesis by simp
qed

section \<open>All words must match\<close>

text \<open>
  Claim C1: for a query that is not blank, an item is in what \<open>filter\<close> returns only
  if it is one of the items, its key stripped is not empty, and every non-empty word of
  the query got a nonzero score from \<open>_filter_item\<close> under the rule mask; so an item
  with a word that scores zero is not in the output.
\<close>

theorem filter_and_semantics:
  assumes "filter_items self lt query items key asc inc mn mx m fd = Inr out"
    and "py_strip query \<noteq> []"
    and "x \<in> set (output_items out)"
  shows "x \<in> set items \<and>
         (\<exists>k. key x = Inr k \<and> py_strip k \<noteq> [] \<and>
              list_all (\<lambda>w. w = [] \<or>
                          (\<exists>s r. filter_item self (py_strip k) w m (settings_get self fd) = Inr (s, r)
                                 \<and> s \<noteq> 0))
                       (query_words (py_strip query)))"
proof -
  from filter_items_output[OF assms] obtain es e where
    es: "collect self key (py_strip query) m (settings_get self fd) items = Inr es"
    and e: "e \<in> set es" "x = fst (snd e)" by blast
  from collect_entry[OF es e(1)] e(2) obtain k sc r where
    x: "x \<in> set items" "key x = Inr k" "py_strip k \<noteq> []"
    and sw: "score_words self (py_strip k) m (settings_get self fd) (query_words (py_strip query))
               (False, 0, None) = Inr (False, sc, r)"
    by auto
  from score_words_skip[OF sw] x show ?thesis by auto
qed

theorem filter_and_semantics_witness:
  "filter_items plain_workflow str_lt (cps ''adobe illust'')
     [cps ''Adobe Photoshop'', cps ''Adobe Illustrator''] str_key False False 0 0 MATCH_ALL True
     = Inr (Items [cps ''Adobe Illustrator''])
   \<and> py_strip (cps ''adobe illust'') \<noteq> []
   \<and> cps ''Adobe Illustrator'' \<in> set (output_items (Items [cps ''Adobe Illustrator'']))
   \<and> (\<exists>k. str_key (cps ''Adobe Illustrator'') = Inr k \<and> py_strip k \<noteq> [] \<and>
          list_all (\<lambda>w. w = [] \<or>
                      (\<exists>s r. filter_item plain_workflow (py_strip k) w MATCH_ALL
                                (settings_get plain_workflow True) = Inr (s, r) \<and> s \<noteq> 0))
                   (query_words (py_strip (cps ''adobe illust''))))"
proof -
  have q: "py_strip (cps ''adobe illust'') \<noteq> []"
    unfolding strip_adobe by (simp add: cps_def)
  have x: "cps ''Adobe Illustrator'' \<in> set (output_items (Items [cps ''Adobe Illustrator'']))"
    by simp
  from filter_and_semantics[OF filter_adobe q x] filter_adobe q x show ?thesis by blast
qed

section \<open>Errors\<close>

text \<open>
  Claim C6 says that \<open>filter\<close> returns normally whenever the key function returns a
  string for every item. \<open>results.sort\<close> sorts the pairs of sort key and
  \<open>(item, score, rule)\<close>, so where two sort keys are equal Python compares the items
  themselves: for two dictionaries with the same title (and different ids), keyed by
  title, the query a gives both the score 99 and the same sort key, and the comparison
  of the two dictionaries raises \<open>TypeError\<close>. The other half of the claim holds
  (\<open>filter_items_key_error\<close>), and so does the first half for items that can be
  compared (\<open>filter_items_returns\<close>).
\<close>

theorem equal_keys_compare_items:
  "filter_items plain_workflow dict_lt [97] [([97], 2), ([97], 3)] title_key
     False False 0 0 MATCH_ALL True = Inl TypeError"
  by (simp add: filter_items_def Let_def strip_ab plain_settings collect_dicts sort_defs
      del: collect.simps)

section \<open>The order of equal scores\<close>

text \<open>
  Claim C4 says that two results with the same score are in ascending alphabetical
  order of their lowercased keys under both values of \<open>ascending\<close>. The sort is
  \<open>results.sort(reverse=ascending)\<close> on \<open>(100.0 / score, value.lower(), score)\<close>:
  with \<open>ascending=True\<close> the whole order is reversed, the alphabetical part with it.
  For the items ab and ac and the query a, both score 98; with \<open>ascending=False\<close>
  the result is ab, ac and with \<open>ascending=True\<close> it is ac, ab. In the default order
  the claim holds for all inputs (\<open>default_order_ties\<close>).
\<close>

theorem ascending_reverses_ties:
  "filter_items plain_workflow str_lt [97] [[97, 98], [97, 99]] str_key True True 0 0
     MATCH_ALL True
   = Inr (Scored [([97, 99], 98, Some MATCH_STARTSWITH), ([97, 98], 98, Some MATCH_STARTSWITH)])
   \<and> filter_items plain_workflow str_lt [97] [[97, 98], [97, 99]] str_key False True 0 0
     MATCH_ALL True
   = Inr (Scored [([97, 98], 98, Some MATCH_STARTSWITH), ([97, 99], 98, Some MATCH_STARTSWITH)])"
  by (simp add: filter_items_def Let_def strip_ab plain_settings collect_ab sort_defs
      del: collect.simps)

section \<open>A negative score\<close>

lemma very_long_value_facts:
  "py_lower (97 # replicate 100 98) = 97 # replicate 100 98"
  "py_strip (97 # replicate 100 98) = 97 # replicate 100 98"
  by (simp add: py_lower_def py_lower_cp_def, rule py_strip_id) (simp_all add: py_isspace_def)

lemma fi_very_long:
  "filter_item plain_workflow (97 # replicate 100 98) [97] MATCH_ALL True
     = Inr (- 1, Some MATCH_STARTSWITH)"
  by (simp add: filter_item_def Let_def plain_compared_value length_score_def MATCH_ALL_bits
      py_lower_def py_lower_cp_def)

lemma collect_very_long:
  "collect plain_workflow str_key [97] MATCH_ALL True [[97, 98], 97 # replicate 100 98] =
     Inr [((50 / 49, [97, 98], 98), ([97, 98], 98, Some MATCH_STARTSWITH)),
          ((- 100, 97 # replicate 100 98, - 1),
           (97 # replicate 100 98, - 1, Some MATCH_STARTSWITH))]"
  by (simp add: Let_def str_key_def strip_ab very_long_value_facts(2) query_words_single fi_ab
      fi_very_long) (simp add: py_lower_def py_lower_cp_def)

text \<open>
  Claim C5 says that the score of \<open>_filter_item\<close> is never negative, and is 0 only
  when no active rule matches. The rules that score by length subtract
  \<open>len(value) / len(query)\<close> from 100, 95 or 90 with no lower bound: for the key of
  one a followed by 100 letters b and the word a, STARTSWITH holds and the score is
  \<open>100 - 101/1 = -1\<close>. \<open>filter\<close> sorts on \<open>100.0 / score\<close>, by its comment the
  score reversed so that the highest becomes the lowest, which takes the score to be
  positive: with the items ab (score 98) and that key (score -1), in the default order
  of best matches first, the item with the negative score comes first.
\<close>

theorem negative_score_ranks_first:
  "filter_item plain_workflow (97 # replicate 100 98) [97] MATCH_ALL True
     = Inr (- 1, Some MATCH_STARTSWITH)
   \<and> filter_items plain_workflow str_lt [97] [[97, 98], 97 # replicate 100 98] str_key
       False True 0 0 MATCH_ALL True
     = Inr (Scored [(97 # replicate 100 98, - 1, Some MATCH_STARTSWITH),
                    ([97, 98], 98, Some MATCH_STARTSWITH)])"
  by (simp add: fi_very_long filter_items_def Let_def strip_ab plain_settings collect_very_long
      sort_defs del: collect.simps)

end
